theory Spec2Isabelle
  imports Complex_Main "HOL-Library.Sublist"
begin

section \<open>The failover client of frontend/lib/api.ts\<close>

subsection \<open>Module constants\<close>

text \<open>
  \<^verbatim>\<open>process.env.NEXT_PUBLIC_API_BASE_URL ?? "http://localhost:8000"\<close>: the environment
  variable is \<open>Some u\<close> when set (also to the empty string) and \<open>None\<close> when undefined.
\<close>

definition PRIMARY_API_BASE_URL :: "string option \<Rightarrow> string" where
  "PRIMARY_API_BASE_URL env = (case env of Some u \<Rightarrow> u | None \<Rightarrow> ''http://localhost:8000'')"

text \<open>
  \<^verbatim>\<open>Array.from(new Set(xs))\<close>: a JavaScript Set iterates in insertion order and adding
  a member again changes nothing, so the first occurrence of every element is kept.
  (\<open>remdups\<close> of the list library keeps the last one.)
\<close>

fun set_insertion_order :: "'a set \<Rightarrow> 'a list \<Rightarrow> 'a list" where
  "set_insertion_order seen [] = []"
| "set_insertion_order seen (x # xs) =
     (if x \<in> seen then set_insertion_order seen xs
      else x # set_insertion_order (insert x seen) xs)"

definition array_from_set :: "'a list \<Rightarrow> 'a list" where
  "array_from_set xs = set_insertion_order {} xs"

definition API_FALLBACK_CANDIDATES :: "string option \<Rightarrow> string list" where
  "API_FALLBACK_CANDIDATES env =
     array_from_set [PRIMARY_API_BASE_URL env, ''http://localhost:8010'', ''http://127.0.0.1:8010'']"

subsection \<open>Errors, responses and the network\<close>

text \<open>
  An \<open>Error\<close> object is identified by its message. A promise can reject with any value:
  \<open>ErrorValue e\<close> is a value for which \<^verbatim>\<open>instanceof Error\<close> holds, \<open>OtherValue\<close> any other.
\<close>

datatype js_error = Error (message: string)

datatype thrown = ErrorValue js_error | OtherValue

text \<open>
  What \<open>apiRequest\<close> reads of a \<open>Response\<close>: its status, and what \<^verbatim>\<open>response.text()\<close> and
  \<^verbatim>\<open>response.json()\<close> settle with (\<open>Inl\<close> a rejection). \<open>'j\<close> is the type of decoded bodies.
\<close>

record 'j response =
  status :: nat
  response_text :: "thrown + string"
  response_json :: "thrown + 'j"

text \<open>\<^verbatim>\<open>response.ok\<close> of the Fetch standard: the status is in the range 200 to 299.\<close>

definition ok :: "'j response \<Rightarrow> bool" where
  "ok r \<longleftrightarrow> 200 \<le> status r \<and> status r \<le> 299"

text \<open>
  \<^verbatim>\<open>await fetch(url, requestInit)\<close> either rejects (transport failure) or resolves with a
  response. The network is a function of the URL; \<open>requestInit\<close> is the same for every
  candidate of one call and is part of that function.
\<close>

datatype 'j fetch_result = Rejects thrown | Resolves "'j response"

type_synonym 'j network = "string \<Rightarrow> 'j fetch_result"

text \<open>The decimal digits of a number, as the template literal prints \<^verbatim>\<open>response.status\<close>.\<close>

definition digit_char :: "nat \<Rightarrow> char" where
  "digit_char d = char_of (48 + d)"

fun show_nat :: "nat \<Rightarrow> string" where
  "show_nat n = (if n < 10 then [digit_char n] else show_nat (n div 10) @ [digit_char (n mod 10)])"

declare show_nat.simps [simp del]

subsection \<open>One candidate: the body of the try block\<close>

text \<open>
  The try block of the loop body leaves in one of three ways: \<^verbatim>\<open>continue\<close> with
  \<open>lastError\<close> assigned (status 404), \<^verbatim>\<open>return response.json()\<close>, or a thrown value
  (a rejected \<open>fetch\<close> or \<open>text()\<close>, or \<^verbatim>\<open>throw responseError\<close>).
\<close>

datatype 'j try_exit = Continue js_error | Return "thrown + 'j" | Throw thrown

definition try_block :: "'j network \<Rightarrow> string \<Rightarrow> string \<Rightarrow> 'j try_exit" where
  "try_block fetch baseUrl path =
     (case fetch (baseUrl @ path) of
        Rejects err \<Rightarrow> Throw err
      | Resolves response \<Rightarrow>
          if \<not> ok response then
            (case response_text response of
               Inl err \<Rightarrow> Throw err
             | Inr msg \<Rightarrow>
                 let responseError =
                       Error (''API '' @ show_nat (status response) @ '': '' @
                              (if msg = [] then ''request failed'' else msg))
                 in if status response = 404 then Continue responseError
                    else Throw (ErrorValue responseError))
          else Return (response_json response))"

text \<open>The catch clause: \<^verbatim>\<open>lastError = error instanceof Error ? error : new Error("request failed")\<close>.\<close>

definition catch_clause :: "thrown \<Rightarrow> js_error" where
  "catch_clause err = (case err of ErrorValue e \<Rightarrow> e | OtherValue \<Rightarrow> Error ''request failed'')"

subsection \<open>The loop over the candidates\<close>

text \<open>
  A call settles with \<open>outcome\<close> (\<open>Inl\<close>: the promise rejects with that value) and leaves
  the module variable \<open>activeApiBaseUrl\<close>. \<open>attempts\<close> is the list of base URLs that were
  fetched, in order; the source does not compute it, it is the observable network trace.
\<close>

record 'j call_result =
  outcome :: "thrown + 'j"
  activeApiBaseUrl :: string
  attempts :: "string list"

definition attempted :: "string \<Rightarrow> 'j call_result \<Rightarrow> 'j call_result" where
  "attempted baseUrl r = r\<lparr>attempts := baseUrl # attempts r\<rparr>"

text \<open>
  The for loop. The thrown value of the try block is caught by the catch clause of the same
  iteration, which assigns \<open>lastError\<close> and falls through to the next candidate. The return
  statement hands the promise of \<open>json()\<close> to the caller without awaiting it, so its
  rejection is not caught here. After the loop: \<^verbatim>\<open>throw lastError ?? new Error("request failed")\<close>.
\<close>

fun apiRequest_loop ::
  "'j network \<Rightarrow> string \<Rightarrow> string list \<Rightarrow> string set \<Rightarrow> js_error option \<Rightarrow> string \<Rightarrow> 'j call_result"
where
  "apiRequest_loop fetch path [] triedBases lastError active =
     \<lparr>outcome = Inl (ErrorValue (case lastError of Some e \<Rightarrow> e | None \<Rightarrow> Error ''request failed'')),
      activeApiBaseUrl = active, attempts = []\<rparr>"
| "apiRequest_loop fetch path (baseUrl # rest) triedBases lastError active =
     (if baseUrl \<in> triedBases then apiRequest_loop fetch path rest triedBases lastError active
      else
        (case try_block fetch baseUrl path of
           Continue responseError \<Rightarrow>
             attempted baseUrl
               (apiRequest_loop fetch path rest (insert baseUrl triedBases) (Some responseError) active)
         | Throw err \<Rightarrow>
             attempted baseUrl
               (apiRequest_loop fetch path rest (insert baseUrl triedBases) (Some (catch_clause err)) active)
         | Return body \<Rightarrow>
             \<lparr>outcome = body, activeApiBaseUrl = baseUrl, attempts = [baseUrl]\<rparr>))"

text \<open>
  \<open>apiRequest\<close>, for the module constant \<open>cands\<close> (\<open>API_FALLBACK_CANDIDATES\<close>) and the current
  value \<open>active\<close> of \<open>activeApiBaseUrl\<close>.
\<close>

definition apiRequest :: "string list \<Rightarrow> 'j network \<Rightarrow> string \<Rightarrow> string \<Rightarrow> 'j call_result" where
  "apiRequest cands fetch path active =
     apiRequest_loop fetch path (active # filter (\<lambda>base. base \<noteq> active) cands) {} None active"

section \<open>Response normalisation: mapDecisionForUi\<close>

subsection \<open>Numbers\<close>

text \<open>
  A JavaScript number is a finite value, NaN or an infinity. Finite values are modelled by
  their mathematical value, a rational: the model does no binary rounding and does not
  tell \<open>-0\<close> from \<open>0\<close>. \<open>Math.round\<close>, \<open>Math.max\<close> and \<open>toFixed\<close> are defined by
  ECMAScript on the mathematical value, and that is what is transcribed here.
\<close>

datatype jsnum = Finite rat | NaN | PosInfinity | NegInfinity

text \<open>\<^verbatim>\<open>Number(value)\<close> for a field of type \<^verbatim>\<open>number | undefined\<close>: undefined becomes NaN.\<close>

definition Number_of :: "jsnum option \<Rightarrow> jsnum" where
  "Number_of v = (case v of None \<Rightarrow> NaN | Some n \<Rightarrow> n)"

definition Number_isFinite :: "jsnum \<Rightarrow> bool" where
  "Number_isFinite n = (case n of Finite x \<Rightarrow> True | NaN \<Rightarrow> False | PosInfinity \<Rightarrow> False | NegInfinity \<Rightarrow> False)"

definition toSafeNumber :: "jsnum option \<Rightarrow> jsnum \<Rightarrow> jsnum" where
  "toSafeNumber v fallback = (let parsed = Number_of v in if Number_isFinite parsed then parsed else fallback)"

text \<open>\<^verbatim>\<open>Math.round\<close>: the nearest integer, a tie going up: \<open>floor (x + 1/2)\<close>.\<close>

definition Math_round :: "jsnum \<Rightarrow> jsnum" where
  "Math_round n = (case n of Finite x \<Rightarrow> Finite (of_int \<lfloor>x + 1 / 2\<rfloor>) | NaN \<Rightarrow> NaN
                   | PosInfinity \<Rightarrow> PosInfinity | NegInfinity \<Rightarrow> NegInfinity)"

fun Math_max :: "jsnum \<Rightarrow> jsnum \<Rightarrow> jsnum" where
  "Math_max NaN b = NaN"
| "Math_max a NaN = NaN"
| "Math_max PosInfinity b = PosInfinity"
| "Math_max a PosInfinity = PosInfinity"
| "Math_max NegInfinity b = b"
| "Math_max a NegInfinity = a"
| "Math_max (Finite x) (Finite y) = Finite (max x y)"

text \<open>
  \<^verbatim>\<open>Number(x.toFixed(2))\<close>. For \<open>|x| < 10^21\<close>, \<open>toFixed(2)\<close> prints the sign and \<open>n / 100\<close> for the
  integer \<open>n\<close> nearest to \<open>100 |x|\<close>, the larger one at a tie; from \<open>10^21\<close> on it prints the
  number itself, as it does NaN and the infinities. \<open>Number\<close> reads the printed value back.
\<close>

definition Number_toFixed2 :: "jsnum \<Rightarrow> jsnum" where
  "Number_toFixed2 n =
     (case n of
        Finite x \<Rightarrow>
          if 10 ^ 21 \<le> \<bar>x\<bar> then Finite x
          else if x < 0 then Finite (- (of_int \<lfloor>(- x) * 100 + 1 / 2\<rfloor> / 100))
          else Finite (of_int \<lfloor>x * 100 + 1 / 2\<rfloor> / 100)
      | NaN \<Rightarrow> NaN | PosInfinity \<Rightarrow> PosInfinity | NegInfinity \<Rightarrow> NegInfinity)"

subsection \<open>Dates\<close>

text \<open>
  The clock, the date parser and the formatter of the host are parameters:
  \<open>Date_now\<close> is \<^verbatim>\<open>new Date()\<close>, \<open>Date_parse t\<close> is \<^verbatim>\<open>new Date(t)\<close> with \<open>None\<close> for an invalid
  date (its \<open>getTime()\<close> is NaN), and \<open>toLocaleTimeString d\<close> is
  \<^verbatim>\<open>d.toLocaleTimeString("en-IN", { hour12: false })\<close>.
\<close>

record 'd host =
  Date_now :: 'd
  Date_parse :: "string \<Rightarrow> 'd option"
  toLocaleTimeString :: "'d \<Rightarrow> string"

text \<open>\<^verbatim>\<open>!timestamp\<close> holds for an undefined and for an empty string.\<close>

definition toDisplayTime :: "'d host \<Rightarrow> string option \<Rightarrow> string" where
  "toDisplayTime h ts =
     (case ts of
        None \<Rightarrow> toLocaleTimeString h (Date_now h)
      | Some t \<Rightarrow>
          if t = [] then toLocaleTimeString h (Date_now h)
          else (case Date_parse h t of
                  None \<Rightarrow> toLocaleTimeString h (Date_now h)
                | Some parsedDate \<Rightarrow> toLocaleTimeString h parsedDate))"

subsection \<open>Payloads\<close>

text \<open>An optional field is an \<open>option\<close>: \<open>None\<close> when the property is undefined.\<close>

record OptimizedDecision =
  recommended_reduction :: "jsnum option"
  cost_saving_estimate :: "jsnum option"
  stability_score :: "jsnum option"

record BackendDecisionPayload =
  timestamp :: "string option"
  rl_action :: "string option"
  optimized_decision :: "OptimizedDecision option"

text \<open>\<open>GenerateDecisionResponse\<close>; its other field, the status string, is not read.\<close>

record GenerateDecisionResponse =
  decision :: "BackendDecisionPayload option"

text \<open>\<open>UiDecision\<close>; its field \<open>timestamp\<close> is \<open>displayTime\<close> here, the name being taken above.\<close>

record UiDecision =
  rlAction :: string
  reduction :: jsnum
  costSaved :: jsnum
  stabilityScore :: jsnum
  displayTime :: string

text \<open>The empty object literal of \<^verbatim>\<open>?? {}\<close>: every property is undefined.\<close>

definition empty_decision :: BackendDecisionPayload where
  "empty_decision = \<lparr>timestamp = None, rl_action = None, optimized_decision = None\<rparr>"

definition empty_optimized :: OptimizedDecision where
  "empty_optimized = \<lparr>recommended_reduction = None, cost_saving_estimate = None, stability_score = None\<rparr>"

text \<open>
  \<open>mapDecisionForUi\<close>. No statement of it throws (property reads of objects, \<open>Number\<close>,
  \<open>Math\<close> functions, \<open>toFixed(2)\<close>, \<open>Date\<close>), so it returns a plain value.
\<close>

definition mapDecisionForUi :: "'d host \<Rightarrow> GenerateDecisionResponse \<Rightarrow> UiDecision" where
  "mapDecisionForUi h response =
     (let decision = (case decision response of Some d \<Rightarrow> d | None \<Rightarrow> empty_decision);
          optimizedDecision = (case optimized_decision decision of Some od \<Rightarrow> od | None \<Rightarrow> empty_optimized)
      in \<lparr>rlAction = (case rl_action decision of Some a \<Rightarrow> a | None \<Rightarrow> ''unknown_action''),
          reduction = Math_max (Finite 0) (Math_round (toSafeNumber (recommended_reduction optimizedDecision) (Finite 0))),
          costSaved = Number_toFixed2 (toSafeNumber (cost_saving_estimate optimizedDecision) (Finite 0)),
          stabilityScore = Number_toFixed2 (toSafeNumber (stability_score optimizedDecision) (Finite 0)),
          displayTime = toDisplayTime h (timestamp decision)\<rparr>)"

section \<open>The polling loop of frontend/app/page.tsx\<close>

datatype RuntimeMode = LIVE_EDGE | SIMULATION | HYBRID

datatype SimulationScenario = normal | peak_load | low_load | grid_failure

text \<open>
  The fields of \<open>LiveDashboardResponse\<close> that \<open>fetchLiveData\<close> reads. \<open>mode\<close> and
  \<open>scenario\<close> are tested for truthiness before use, so they are optional here.
\<close>

record LiveDashboardResponse =
  mode :: "RuntimeMode option"
  scenario :: "SimulationScenario option"
  payload_decision :: BackendDecisionPayload

text \<open>
  The state of \<open>DashboardOverview\<close> that \<open>fetchLiveData\<close> touches: the values behind the
  \<open>useState\<close> setters and the ref \<open>requestLock\<close>. (\<open>decision\<close> and \<open>scenario\<close> of the
  source are \<open>uiDecision\<close> and \<open>scenarioState\<close>.)
\<close>

record dashboard =
  liveData :: "LiveDashboardResponse option"
  uiDecision :: "UiDecision option"
  decisionError :: "string option"
  isScanning :: bool
  runtimeMode :: RuntimeMode
  scenarioState :: SimulationScenario
  requestLock :: bool

text \<open>
  \<open>fetchLiveData\<close> has one await, of \<open>getLiveLaptopDashboard()\<close>. JavaScript runs the code
  before the await, and the code after it, without interruption, so an invocation is two
  atomic steps. The first is the guard and the acquisition; it reports whether the network
  call was issued. \<open>force\<close> is the truthiness of \<^verbatim>\<open>options?.force\<close>.
\<close>

definition fetchLiveData_begin :: "bool \<Rightarrow> dashboard \<Rightarrow> bool \<times> dashboard" where
  "fetchLiveData_begin force s =
     (if requestLock s \<and> \<not> force then (False, s)
      else (True, s\<lparr>requestLock := True, isScanning := True\<rparr>))"

text \<open>The rest of the try block, run when the awaited promise is fulfilled with \<open>payload\<close>.\<close>

definition try_rest :: "'d host \<Rightarrow> LiveDashboardResponse \<Rightarrow> dashboard \<Rightarrow> dashboard" where
  "try_rest h payload s =
     (let s1 = s\<lparr>liveData := Some payload\<rparr>;
          s2 = (case mode payload of Some m \<Rightarrow> s1\<lparr>runtimeMode := m\<rparr> | None \<Rightarrow> s1);
          s3 = (case scenario payload of Some sc \<Rightarrow> s2\<lparr>scenarioState := sc\<rparr> | None \<Rightarrow> s2)
      in s3\<lparr>uiDecision := Some (mapDecisionForUi h \<lparr>decision = Some (payload_decision payload)\<rparr>),
             decisionError := None\<rparr>)"

text \<open>The catch clause, run when the awaited promise is rejected.\<close>

definition catch_rest :: "thrown \<Rightarrow> dashboard \<Rightarrow> dashboard" where
  "catch_rest err s =
     s\<lparr>decisionError :=
          Some (case err of ErrorValue e \<Rightarrow> message e | OtherValue \<Rightarrow> ''Live scan request failed'')\<rparr>"

definition finally_clause :: "dashboard \<Rightarrow> dashboard" where
  "finally_clause s = s\<lparr>isScanning := False, requestLock := False\<rparr>"

text \<open>The second step: the continuation of the await, with what the promise settled with.\<close>

definition fetchLiveData_resume ::
  "'d host \<Rightarrow> thrown + LiveDashboardResponse \<Rightarrow> dashboard \<Rightarrow> dashboard" where
  "fetchLiveData_resume h settled s =
     finally_clause (case settled of Inr payload \<Rightarrow> try_rest h payload s | Inl err \<Rightarrow> catch_rest err s)"

subsection \<open>Interleaved invocations\<close>

text \<open>
  Invocations interleave at their awaits. The system is the component state and the
  invocations whose network call is in flight, oldest first, each with its \<open>force\<close> flag.
  \<open>Invoke force\<close> runs the first step of a new invocation; \<open>Settle i r\<close> settles the
  promise of the \<open>i\<close>-th invocation in flight and runs its continuation.
\<close>

datatype event = Invoke bool | Settle nat "thrown + LiveDashboardResponse"

fun step :: "'d host \<Rightarrow> dashboard \<times> bool list \<Rightarrow> event \<Rightarrow> dashboard \<times> bool list" where
  "step h (s, flights) (Invoke force) =
     (case fetchLiveData_begin force s of
        (True, s') \<Rightarrow> (s', flights @ [force])
      | (False, s') \<Rightarrow> (s', flights))"
| "step h (s, flights) (Settle i settled) =
     (if i < length flights then (fetchLiveData_resume h settled s, take i flights @ drop (Suc i) flights)
      else (s, flights))"

definition run :: "'d host \<Rightarrow> dashboard \<times> bool list \<Rightarrow> event list \<Rightarrow> dashboard \<times> bool list" where
  "run h = foldl (step h)"

text \<open>The component as it is mounted: the initial values of \<open>useState\<close> and \<open>useRef\<close>.\<close>

definition mounted :: "dashboard \<times> bool list" where
  "mounted =
     (\<lparr>liveData = None, uiDecision = None, decisionError = None, isScanning = False,
       runtimeMode = LIVE_EDGE, scenarioState = normal, requestLock = False\<rparr>, [])"

section \<open>Vocabulary of the properties\<close>

text \<open>
  What a candidate answered in a call, read off the network: a successful response; a
  failure that sends the client on to the next candidate (a rejected fetch or a 404); and
  the error recorded in \<open>lastError\<close> for such a failure.
\<close>

definition succeeded :: "'j network \<Rightarrow> string \<Rightarrow> string \<Rightarrow> bool" where
  "succeeded fetch path baseUrl =
     (case fetch (baseUrl @ path) of Rejects err \<Rightarrow> False | Resolves response \<Rightarrow> ok response)"

definition falls_through :: "'j network \<Rightarrow> string \<Rightarrow> string \<Rightarrow> bool" where
  "falls_through fetch path baseUrl =
     (case fetch (baseUrl @ path) of Rejects err \<Rightarrow> True | Resolves response \<Rightarrow> status response = 404)"

definition recorded_error :: "'j network \<Rightarrow> string \<Rightarrow> string \<Rightarrow> js_error" where
  "recorded_error fetch path baseUrl =
     (case fetch (baseUrl @ path) of
        Rejects err \<Rightarrow> (case err of ErrorValue e \<Rightarrow> e | OtherValue \<Rightarrow> Error ''request failed'')
      | Resolves response \<Rightarrow>
          (case response_text response of
             Inl err \<Rightarrow> (case err of ErrorValue e \<Rightarrow> e | OtherValue \<Rightarrow> Error ''request failed'')
           | Inr msg \<Rightarrow> Error (''API 404: '' @ (if msg = [] then ''request failed'' else msg))))"

text \<open>
  The state of the polling loop when its guard is intact: at most one invocation is in
  flight, and the lock is held exactly when one is.
\<close>

definition guarded :: "dashboard \<times> bool list \<Rightarrow> bool" where
  "guarded sys \<longleftrightarrow> length (snd sys) \<le> 1 \<and> (requestLock (fst sys) \<longleftrightarrow> snd sys \<noteq> [])"

subsection \<open>Concrete networks and hosts for the examples\<close>

text \<open>
  A network given by a table of URLs; a URL outside the table is unreachable. \<open>reply\<close> is
  a response with a status and a body, whose decoded form is represented by the body itself.
\<close>

definition network_of :: "(string \<times> 'j fetch_result) list \<Rightarrow> 'j network" where
  "network_of table url =
     (case map_of table url of Some r \<Rightarrow> r | None \<Rightarrow> Rejects (ErrorValue (Error ''Failed to fetch'')))"

definition reply :: "nat \<Rightarrow> string \<Rightarrow> string fetch_result" where
  "reply code body = Resolves \<lparr>status = code, response_text = Inr body, response_json = Inr body\<rparr>"

text \<open>A host whose dates are seconds since midnight, printed as a clock time.\<close>

definition two_digits :: "nat \<Rightarrow> string" where
  "two_digits n = [digit_char (n div 10 mod 10), digit_char (n mod 10)]"

definition example_host :: "nat host" where
  "example_host =
     \<lparr>Date_now = 0,
      Date_parse = (\<lambda>t. if t = ''2024-01-01T10:00:00Z'' then Some 55800 else None),
      toLocaleTimeString =
        (\<lambda>d. two_digits (d div 3600 mod 24) @ '':'' @ two_digits (d div 60 mod 60) @ '':'' @ two_digits (d mod 60))\<rparr>"

section \<open>Lemmas about the candidate order\<close>

lemma set_insertion_order_set: "set (set_insertion_order seen xs) = set xs - seen"
  by (induction xs arbitrary: seen) auto

lemma set_insertion_order_distinct: "distinct (set_insertion_order seen xs)"
  by (induction xs arbitrary: seen) (auto simp: set_insertion_order_set)

lemma set_insertion_order_filter:
  "set_insertion_order (insert a seen) (filter (\<lambda>x. x \<noteq> a) xs)
     = filter (\<lambda>x. x \<noteq> a) (set_insertion_order seen xs)"
proof (induction xs arbitrary: seen)
  case Nil
  show ?case by simp
next
  case (Cons x xs)
  show ?case
  proof (cases "x = a")
    case True
    then show ?thesis using Cons.IH [of seen] Cons.IH [of "insert a seen"] by simp
  next
    case False
    then show ?thesis using Cons.IH [of seen] Cons.IH [of "insert x seen"]
      by (simp add: insert_commute)
  qed
qed

lemma candidate_order:
  "set_insertion_order {} (a # filter (\<lambda>x. x \<noteq> a) xs) = a # filter (\<lambda>x. x \<noteq> a) (array_from_set xs)"
  by (simp add: array_from_set_def set_insertion_order_filter)

lemma set_insertion_order_id:
  "distinct xs \<Longrightarrow> set xs \<inter> seen = {} \<Longrightarrow> set_insertion_order seen xs = xs"
  by (induction xs arbitrary: seen) auto

lemma array_from_set_idem: "array_from_set (array_from_set xs) = array_from_set xs"
  by (simp add: array_from_set_def set_insertion_order_id set_insertion_order_distinct)

lemma show_nat_404: "show_nat 404 = ''404''"
  by code_simp

lemma show_nat_500: "show_nat 500 = ''500''"
  by code_simp

section \<open>Lemmas about the loop\<close>

text \<open>The loop fetches a prefix of the candidates it is given, each at its first occurrence.\<close>

lemma attempts_prefix:
  "prefix (attempts (apiRequest_loop fetch path cs tried le a)) (set_insertion_order tried cs)"
  by (induction cs arbitrary: tried le) (auto simp: attempted_def split: try_exit.splits)

lemma try_block_succeeded:
  "succeeded fetch path b \<longleftrightarrow> (\<exists>body. try_block fetch b path = Return body)"
  by (auto simp: succeeded_def try_block_def Let_def split: fetch_result.splits sum.splits)

text \<open>
  A successful response among the fetched candidates decides the call: it is the last
  one fetched, its decoded body is the outcome and its base URL becomes the active one.
\<close>

lemma loop_success:
  assumes "b \<in> set (attempts (apiRequest_loop fetch path cs tried le a))"
    and "fetch (b @ path) = Resolves rb" and "ok rb"
  shows "outcome (apiRequest_loop fetch path cs tried le a) = response_json rb
         \<and> activeApiBaseUrl (apiRequest_loop fetch path cs tried le a) = b
         \<and> last (attempts (apiRequest_loop fetch path cs tried le a)) = b"
  using assms
proof (induction cs arbitrary: tried le)
  case Nil
  then show ?case by simp
next
  case (Cons c cs)
  show ?case
  proof (cases "c \<in> tried")
    case True
    then show ?thesis using Cons by simp
  next
    case False
    show ?thesis
    proof (cases "try_block fetch c path")
      case (Continue e)
      have neq: "b \<noteq> c" using Continue Cons.prems(2,3) by (auto simp: try_block_def)
      then have mem: "b \<in> set (attempts (apiRequest_loop fetch path cs (insert c tried) (Some e) a))"
        using Cons.prems(1) False Continue by (simp add: attempted_def)
      then have "attempts (apiRequest_loop fetch path cs (insert c tried) (Some e) a) \<noteq> []" by auto
      with Cons.IH [OF mem Cons.prems(2,3)] show ?thesis
        using False Continue by (simp add: attempted_def)
    next
      case (Throw err)
      have neq: "b \<noteq> c" using Throw Cons.prems(2,3) by (auto simp: try_block_def)
      then have mem: "b \<in> set (attempts (apiRequest_loop fetch path cs (insert c tried) (Some (catch_clause err)) a))"
        using Cons.prems(1) False Throw by (simp add: attempted_def)
      then have "attempts (apiRequest_loop fetch path cs (insert c tried) (Some (catch_clause err)) a) \<noteq> []" by auto
      with Cons.IH [OF mem Cons.prems(2,3)] show ?thesis
        using False Throw by (simp add: attempted_def)
    next
      case (Return body)
      then have "b = c" using Cons.prems(1) False by simp
      then show ?thesis using Return False Cons.prems(2,3) by (simp add: try_block_def)
    qed
  qed
qed

text \<open>
  The active base URL changes only in the return branch, which a successful response
  alone reaches.
\<close>

lemma loop_active:
  "activeApiBaseUrl (apiRequest_loop fetch path cs tried le a)
     = (case List.find (succeeded fetch path) (attempts (apiRequest_loop fetch path cs tried le a)) of
          Some b \<Rightarrow> b | None \<Rightarrow> a)"
proof (induction cs arbitrary: tried le)
  case Nil
  show ?case by simp
next
  case (Cons c cs)
  show ?case
  proof (cases "c \<in> tried")
    case True
    then show ?thesis using Cons.IH by simp
  next
    case False
    show ?thesis
    proof (cases "try_block fetch c path")
      case (Continue e)
      then have "\<not> succeeded fetch path c" by (simp add: try_block_succeeded)
      then show ?thesis using False Continue Cons.IH by (simp add: attempted_def)
    next
      case (Throw err)
      then have "\<not> succeeded fetch path c" by (simp add: try_block_succeeded)
      then show ?thesis using False Throw Cons.IH by (simp add: attempted_def)
    next
      case (Return body)
      then have "succeeded fetch path c" by (simp add: try_block_succeeded)
      then show ?thesis using False Return by simp
    qed
  qed
qed

text \<open>
  A rejected fetch and a 404 both leave the iteration with \<open>lastError\<close> assigned, and
  when every candidate does so the loop runs to its end and throws the last assignment.
\<close>

lemma try_block_falls_through:
  "falls_through fetch path b \<Longrightarrow>
     (try_block fetch b path = Continue (recorded_error fetch path b)) \<or>
     (\<exists>err. try_block fetch b path = Throw err \<and> catch_clause err = recorded_error fetch path b)"
  by (auto simp: falls_through_def try_block_def recorded_error_def catch_clause_def ok_def Let_def show_nat_404
           split: fetch_result.splits sum.splits thrown.splits)

lemma loop_all_fail:
  assumes "\<forall>b \<in> set cs. falls_through fetch path b"
  shows "apiRequest_loop fetch path cs tried le a =
           \<lparr>outcome = Inl (ErrorValue
               (case (if set_insertion_order tried cs = [] then le
                      else Some (recorded_error fetch path (last (set_insertion_order tried cs)))) of
                  Some e \<Rightarrow> e | None \<Rightarrow> Error ''request failed'')),
            activeApiBaseUrl = a,
            attempts = set_insertion_order tried cs\<rparr>"
  using assms
proof (induction cs arbitrary: tried le)
  case Nil
  show ?case by simp
next
  case (Cons c cs)
  then have rest: "\<forall>b \<in> set cs. falls_through fetch path b" and c: "falls_through fetch path c"
    by simp_all
  show ?case
  proof (cases "c \<in> tried")
    case True
    then show ?thesis using Cons.IH [OF rest] by simp
  next
    case False
    from try_block_falls_through [OF c] show ?thesis
    proof
      assume "try_block fetch c path = Continue (recorded_error fetch path c)"
      then show ?thesis using False Cons.IH [OF rest, of "insert c tried" "Some (recorded_error fetch path c)"]
        by (simp add: attempted_def)
    next
      assume "\<exists>err. try_block fetch c path = Throw err \<and> catch_clause err = recorded_error fetch path c"
      then obtain err where "try_block fetch c path = Throw err" "catch_clause err = recorded_error fetch path c"
        by blast
      then show ?thesis using False Cons.IH [OF rest, of "insert c tried" "Some (recorded_error fetch path c)"]
        by (simp add: attempted_def)
    qed
  qed
qed

text \<open>
  The exact trace. A candidate that does not answer with a successful status leaves the
  try block by \<open>continue\<close> or by a thrown value, and either way the loop goes on to the next
  candidate; the first candidate that answers with a successful status ends the call.
\<close>

lemma succeeded_iff:
  "succeeded fetch path b \<longleftrightarrow> (\<exists>rb. fetch (b @ path) = Resolves rb \<and> ok rb)"
  by (auto simp: succeeded_def split: fetch_result.splits)

lemma try_block_not_succeeded:
  "\<not> succeeded fetch path b \<Longrightarrow>
     (\<exists>e. try_block fetch b path = Continue e) \<or> (\<exists>err. try_block fetch b path = Throw err)"
  by (cases "try_block fetch b path") (auto simp: try_block_succeeded)

lemma try_block_ok:
  "fetch (b @ path) = Resolves rb \<Longrightarrow> ok rb \<Longrightarrow> try_block fetch b path = Return (response_json rb)"
  by (simp add: try_block_def)

lemma loop_no_success:
  assumes "\<forall>b \<in> set (set_insertion_order tried cs). \<not> succeeded fetch path b"
  shows "attempts (apiRequest_loop fetch path cs tried le a) = set_insertion_order tried cs"
  using assms
proof (induction cs arbitrary: tried le)
  case Nil
  show ?case by simp
next
  case (Cons x xs)
  show ?case
  proof (cases "x \<in> tried")
    case True
    then show ?thesis using Cons by simp
  next
    case False
    then have nx: "\<not> succeeded fetch path x"
      and rest: "\<forall>b \<in> set (set_insertion_order (insert x tried) xs). \<not> succeeded fetch path b"
      using Cons.prems by simp_all
    from try_block_not_succeeded [OF nx] show ?thesis
    proof
      assume "\<exists>e. try_block fetch x path = Continue e"
      then obtain e where "try_block fetch x path = Continue e" by blast
      then show ?thesis using False Cons.IH [OF rest, of "Some e"] by (simp add: attempted_def)
    next
      assume "\<exists>err. try_block fetch x path = Throw err"
      then obtain err where "try_block fetch x path = Throw err" by blast
      then show ?thesis using False Cons.IH [OF rest, of "Some (catch_clause err)"] by (simp add: attempted_def)
    qed
  qed
qed

lemma loop_first_success:
  assumes "set_insertion_order tried cs = pre @ c # post"
    and "\<forall>b \<in> set pre. \<not> succeeded fetch path b"
    and "fetch (c @ path) = Resolves rc" and "ok rc"
  shows "apiRequest_loop fetch path cs tried le a
           = \<lparr>outcome = response_json rc, activeApiBaseUrl = c, attempts = pre @ [c]\<rparr>"
  using assms(1,2)
proof (induction cs arbitrary: tried le pre)
  case Nil
  then show ?case by simp
next
  case (Cons x xs)
  note IH = Cons.IH and prems = Cons.prems
  show ?case
  proof (cases "x \<in> tried")
    case True
    then show ?thesis using IH prems by simp
  next
    case False
    then have split: "x # set_insertion_order (insert x tried) xs = pre @ c # post"
      using prems(1) by simp
    show ?thesis
    proof (cases pre)
      case Nil
      then have "x = c" using split by simp
      then show ?thesis using False Nil try_block_ok [of fetch c path rc, OF assms(3,4)] by simp
    next
      case (Cons p pre')
      have xp: "x = p" using split Cons by auto
      have tl: "set_insertion_order (insert x tried) xs = pre' @ c # post" using split Cons by auto
      have nx: "\<not> succeeded fetch path x" using prems(2) Cons xp by simp
      have rest: "\<forall>b \<in> set pre'. \<not> succeeded fetch path b" using prems(2) Cons by simp
      from try_block_not_succeeded [OF nx] show ?thesis
      proof
        assume "\<exists>e. try_block fetch x path = Continue e"
        then obtain e where "try_block fetch x path = Continue e" by blast
        then show ?thesis using False Cons xp IH [OF tl rest, of "Some e"]
          by (simp add: attempted_def)
      next
        assume "\<exists>err. try_block fetch x path = Throw err"
        then obtain err where "try_block fetch x path = Throw err" by blast
        then show ?thesis using False Cons xp IH [OF tl rest, of "Some (catch_clause err)"]
          by (simp add: attempted_def)
      qed
    qed
  qed
qed

lemma apiRequest_trace_cases:
  "(\<exists>pre c post.
        active # filter (\<lambda>base. base \<noteq> active) (array_from_set cands) = pre @ c # post
      \<and> (\<forall>b \<in> set pre. \<not> succeeded fetch path b) \<and> succeeded fetch path c
      \<and> attempts (apiRequest cands fetch path active) = pre @ [c])
   \<or> ((\<forall>b \<in> set (active # filter (\<lambda>base. base \<noteq> active) (array_from_set cands)).
          \<not> succeeded fetch path b)
      \<and> attempts (apiRequest cands fetch path active)
          = active # filter (\<lambda>base. base \<noteq> active) (array_from_set cands))"
proof -
  let ?order = "active # filter (\<lambda>base. base \<noteq> active) (array_from_set cands)"
  have ord: "set_insertion_order {} (active # filter (\<lambda>base. base \<noteq> active) cands) = ?order"
    by (rule candidate_order)
  show ?thesis
  proof (cases "\<exists>b \<in> set ?order. succeeded fetch path b")
    case True
    then obtain pre c post where sp: "?order = pre @ c # post"
        and c: "succeeded fetch path c" and pre: "\<forall>b \<in> set pre. \<not> succeeded fetch path b"
      using split_list_first_prop [of ?order "succeeded fetch path"] by blast
    from c obtain rc where rc: "fetch (c @ path) = Resolves rc" "ok rc"
      by (auto simp: succeeded_iff)
    have "set_insertion_order {} (active # filter (\<lambda>base. base \<noteq> active) cands) = pre @ c # post"
      using sp ord by simp
    from loop_first_success [OF this pre rc, of None active]
    have "attempts (apiRequest cands fetch path active) = pre @ [c]"
      by (simp add: apiRequest_def)
    with sp c pre show ?thesis by blast
  next
    case False
    then have none: "\<forall>b \<in> set ?order. \<not> succeeded fetch path b" by blast
    then have "\<forall>b \<in> set (set_insertion_order {} (active # filter (\<lambda>base. base \<noteq> active) cands)).
                 \<not> succeeded fetch path b"
      by (simp only: ord)
    from loop_no_success [OF this, of None active]
    have "attempts (apiRequest cands fetch path active) = ?order"
      by (simp only: apiRequest_def ord)
    with none show ?thesis by blast
  qed
qed

section \<open>Properties of apiRequest\<close>

text \<open>
  C2. In every call the base URLs are fetched in the order: the active base URL first,
  then the configured candidates without the active one, each at its first occurrence.
  The fetched URLs are an initial part of that list, the first fetch goes to the active
  base URL, and no base URL is fetched twice, whatever is repeated in the configured list.
  The call goes through the whole list unless its last fetch was answered with a
  successful status, and no fetch before the last one was.
\<close>

theorem apiRequest_candidate_order:
  "prefix (attempts (apiRequest cands fetch path active))
          (active # filter (\<lambda>base. base \<noteq> active) (array_from_set cands))
   \<and> hd (attempts (apiRequest cands fetch path active)) = active
   \<and> attempts (apiRequest cands fetch path active) \<noteq> []
   \<and> distinct (attempts (apiRequest cands fetch path active))
   \<and> (attempts (apiRequest cands fetch path active)
         = active # filter (\<lambda>base. base \<noteq> active) (array_from_set cands)
       \<or> succeeded fetch path (last (attempts (apiRequest cands fetch path active))))
   \<and> list_all (\<lambda>base. \<not> succeeded fetch path base) (butlast (attempts (apiRequest cands fetch path active)))"
proof -
  let ?r = "apiRequest cands fetch path active"
  let ?order = "active # filter (\<lambda>base. base \<noteq> active) (array_from_set cands)"
  have pre: "prefix (attempts ?r) ?order"
    using attempts_prefix [of fetch path "active # filter (\<lambda>base. base \<noteq> active) cands" "{}" None active]
    by (simp only: apiRequest_def candidate_order)
  have ne: "attempts ?r \<noteq> []"
    by (simp add: apiRequest_def attempted_def split: try_exit.splits)
  have hd: "hd (attempts ?r) = active"
    by (simp add: apiRequest_def attempted_def split: try_exit.splits)
  have dist: "distinct ?order"
    using set_insertion_order_distinct [of "{}" "active # filter (\<lambda>base. base \<noteq> active) cands"]
    by (simp only: candidate_order)
  from pre obtain rest where "?order = attempts ?r @ rest"
    unfolding prefix_def by blast
  with dist have "distinct (attempts ?r @ rest)"
    by (simp only:)
  then have d: "distinct (attempts ?r)"
    by (simp only: distinct_append)
  have full: "attempts ?r = ?order \<or> succeeded fetch path (last (attempts ?r))"
    using apiRequest_trace_cases [of active cands fetch path] by auto
  have "\<forall>b \<in> set (butlast (attempts ?r)). \<not> succeeded fetch path b"
  proof
    fix b
    assume b: "b \<in> set (butlast (attempts ?r))"
    from apiRequest_trace_cases [of active cands fetch path] show "\<not> succeeded fetch path b"
    proof (elim disjE exE conjE)
      fix pre c post
      assume "\<forall>b \<in> set pre. \<not> succeeded fetch path b" and "attempts ?r = pre @ [c]"
      with b show ?thesis by simp
    next
      assume "\<forall>b \<in> set ?order. \<not> succeeded fetch path b" and "attempts ?r = ?order"
      with in_set_butlastD [OF b] show ?thesis by auto
    qed
  qed
  then have before: "list_all (\<lambda>base. \<not> succeeded fetch path base) (butlast (attempts ?r))"
    by (simp add: list_all_iff)
  from pre hd ne d full before show ?thesis by simp
qed

text \<open>
  The default candidates with the second one active, on a network where nothing is
  reachable: all three are fetched, the active one first.
\<close>

theorem apiRequest_candidate_order_witness:
  "attempts (apiRequest (API_FALLBACK_CANDIDATES None)
       (network_of ([] :: (string \<times> string fetch_result) list))
       ''/monitoring/laptop/live-dashboard'' ''http://localhost:8010'')
     = [''http://localhost:8010'', ''http://localhost:8000'', ''http://127.0.0.1:8010'']"
proof -
  let ?net = "network_of ([] :: (string \<times> string fetch_result) list)"
  have none: "\<not> succeeded ?net ''/monitoring/laptop/live-dashboard'' b" for b
    by (simp add: succeeded_def network_of_def)
  have order: "''http://localhost:8010'' # filter (\<lambda>base. base \<noteq> ''http://localhost:8010'')
                   (array_from_set (API_FALLBACK_CANDIDATES None))
                 = [''http://localhost:8010'', ''http://localhost:8000'', ''http://127.0.0.1:8010'']"
    by (simp add: API_FALLBACK_CANDIDATES_def PRIMARY_API_BASE_URL_def array_from_set_def)
  from apiRequest_candidate_order [of "API_FALLBACK_CANDIDATES None" ?net
         "''/monitoring/laptop/live-dashboard''" "''http://localhost:8010''"]
  show ?thesis
    by (simp only: none order) simp
qed

text \<open>
  The example of the specification: candidates \<open>A, B, C\<close> (here with repetitions) and
  \<open>B\<close> active, on a network where nothing is reachable.
\<close>

lemma active_first_example:
  "attempts (apiRequest [''A'', ''B'', ''C'', ''B'', ''A''] (network_of ([] :: (string \<times> string fetch_result) list)) ''/x'' ''B'')
     = [''B'', ''A'', ''C'']"
  by (simp add: apiRequest_def network_of_def try_block_def attempted_def)

text \<open>
  C3. The active base URL, fetched first, answers 404; \<open>c\<close> is a later candidate that
  answers with a successful status, and the candidates between them do not. Then the call
  fetches the active base URL, the candidates in between and \<open>c\<close>, in this order and
  nothing else; it settles with what \<open>json()\<close> of the response of \<open>c\<close> settles with, the
  decoded body; and \<open>c\<close> is the active base URL afterwards.
\<close>

theorem apiRequest_404_then_success:
  assumes "fetch (active @ path) = Resolves r1" and "status r1 = 404"
    and "filter (\<lambda>base. base \<noteq> active) (array_from_set cands) = between @ c # rest"
    and "\<forall>b \<in> set between. \<not> succeeded fetch path b"
    and "fetch (c @ path) = Resolves rc" and "ok rc"
  shows "apiRequest cands fetch path active
           = \<lparr>outcome = response_json rc, activeApiBaseUrl = c, attempts = active # between @ [c]\<rparr>"
proof -
  have "\<not> succeeded fetch path active"
    using assms(1,2) by (simp add: succeeded_def ok_def)
  then have pre: "\<forall>b \<in> set (active # between). \<not> succeeded fetch path b"
    using assms(4) by simp
  have "set_insertion_order {} (active # filter (\<lambda>base. base \<noteq> active) cands)
          = (active # between) @ c # rest"
    using assms(3) by (simp only: candidate_order) simp
  from loop_first_success [OF this pre assms(5,6), of None active] show ?thesis
    by (simp add: apiRequest_def)
qed

theorem apiRequest_404_then_success_witness:
  "apiRequest (API_FALLBACK_CANDIDATES None)
       (network_of [(''http://localhost:8010/autonomous-ai/status'', reply 404 ''Not Found''),
                    (''http://127.0.0.1:8010/autonomous-ai/status'', reply 200 ''{}'')])
       ''/autonomous-ai/status'' ''http://localhost:8010''
     = \<lparr>outcome = Inr ''{}'', activeApiBaseUrl = ''http://127.0.0.1:8010'',
        attempts = [''http://localhost:8010'', ''http://localhost:8000'', ''http://127.0.0.1:8010'']\<rparr>"
proof -
  let ?net = "network_of [(''http://localhost:8010/autonomous-ai/status'', reply 404 ''Not Found''),
                    (''http://127.0.0.1:8010/autonomous-ai/status'', reply 200 ''{}'')]"
  have f1: "?net (''http://localhost:8010'' @ ''/autonomous-ai/status'')
              = Resolves \<lparr>status = 404, response_text = Inr ''Not Found'', response_json = Inr ''Not Found''\<rparr>"
    by (simp add: network_of_def reply_def)
  have f2: "?net (''http://127.0.0.1:8010'' @ ''/autonomous-ai/status'')
              = Resolves \<lparr>status = 200, response_text = Inr ''{}'', response_json = Inr ''{}''\<rparr>"
    by (simp add: network_of_def reply_def)
  have order: "filter (\<lambda>base. base \<noteq> ''http://localhost:8010'') (array_from_set (API_FALLBACK_CANDIDATES None))
                 = [''http://localhost:8000''] @ ''http://127.0.0.1:8010'' # []"
    by (simp add: API_FALLBACK_CANDIDATES_def PRIMARY_API_BASE_URL_def array_from_set_def)
  have between: "\<forall>b \<in> set [''http://localhost:8000'']. \<not> succeeded ?net ''/autonomous-ai/status'' b"
    by (simp add: succeeded_def network_of_def)
  have ok2: "ok \<lparr>status = 200, response_text = Inr ''{}'', response_json = Inr ''{}''\<rparr>"
    by (simp add: ok_def)
  have s404: "status \<lparr>status = 404, response_text = Inr ''Not Found'', response_json = Inr ''Not Found''\<rparr> = 404"
    by simp
  from apiRequest_404_then_success [OF f1 s404 order between f2 ok2] show ?thesis
    by simp
qed

text \<open>
  The example of the specification: \<open>B\<close> is active and answers 404, \<open>A\<close> answers 200.
\<close>

lemma failover_example:
  "apiRequest (API_FALLBACK_CANDIDATES None)
       (network_of [(''http://localhost:8010/autonomous-ai/status'', reply 404 ''Not Found''),
                    (''http://localhost:8000/autonomous-ai/status'', reply 200 ''{}'')])
       ''/autonomous-ai/status'' ''http://localhost:8010''
     = \<lparr>outcome = Inr ''{}'', activeApiBaseUrl = ''http://localhost:8000'',
        attempts = [''http://localhost:8010'', ''http://localhost:8000'']\<rparr>"
  by (simp add: apiRequest_def API_FALLBACK_CANDIDATES_def PRIMARY_API_BASE_URL_def array_from_set_def
          network_of_def reply_def try_block_def ok_def attempted_def)

text \<open>
  C4. When every candidate fails with a rejected fetch or a 404, the call throws: the
  outcome is the error recorded for the last candidate fetched (the generic error had none
  been fetched), every candidate has been fetched once, and the active base URL is
  unchanged. The loop is a structural recursion over the finite candidate list, so the call
  ends whenever its fetches settle.
\<close>

theorem apiRequest_all_candidates_fail:
  assumes "\<forall>b \<in> set (active # cands). falls_through fetch path b"
  shows "outcome (apiRequest cands fetch path active)
           = Inl (ErrorValue
                   (case attempts (apiRequest cands fetch path active) of
                      [] \<Rightarrow> Error ''request failed''
                    | b # bs \<Rightarrow> recorded_error fetch path (last (b # bs))))
         \<and> attempts (apiRequest cands fetch path active)
             = active # filter (\<lambda>base. base \<noteq> active) (array_from_set cands)
         \<and> activeApiBaseUrl (apiRequest cands fetch path active) = active"
proof -
  let ?cs = "active # filter (\<lambda>base. base \<noteq> active) cands"
  have "\<forall>b \<in> set ?cs. falls_through fetch path b"
    using assms by auto
  from loop_all_fail [OF this, of "{}" None active] show ?thesis
    by (simp only: apiRequest_def candidate_order) simp
qed

theorem apiRequest_all_candidates_fail_witness:
  "falls_through (network_of [(''http://localhost:8010/monitoring/laptop/mode'', reply 404 [])])
      ''/monitoring/laptop/mode'' ''http://localhost:8000''
   \<and> falls_through (network_of [(''http://localhost:8010/monitoring/laptop/mode'', reply 404 [])])
      ''/monitoring/laptop/mode'' ''http://localhost:8010''
   \<and> falls_through (network_of [(''http://localhost:8010/monitoring/laptop/mode'', reply 404 [])])
      ''/monitoring/laptop/mode'' ''http://127.0.0.1:8010''
   \<and> apiRequest (API_FALLBACK_CANDIDATES None)
        (network_of [(''http://localhost:8010/monitoring/laptop/mode'', reply 404 [])])
        ''/monitoring/laptop/mode'' ''http://localhost:8000''
      = \<lparr>outcome = Inl (ErrorValue (Error ''Failed to fetch'')),
         activeApiBaseUrl = ''http://localhost:8000'',
         attempts = [''http://localhost:8000'', ''http://localhost:8010'', ''http://127.0.0.1:8010'']\<rparr>"
proof -
  let ?net = "network_of [(''http://localhost:8010/monitoring/laptop/mode'', reply 404 [])]"
  have f1: "falls_through ?net ''/monitoring/laptop/mode'' ''http://localhost:8000''"
    by (simp add: falls_through_def network_of_def reply_def)
  have f2: "falls_through ?net ''/monitoring/laptop/mode'' ''http://localhost:8010''"
    by (simp add: falls_through_def network_of_def reply_def)
  have f3: "falls_through ?net ''/monitoring/laptop/mode'' ''http://127.0.0.1:8010''"
    by (simp add: falls_through_def network_of_def reply_def)
  have cands: "API_FALLBACK_CANDIDATES None
                 = [''http://localhost:8000'', ''http://localhost:8010'', ''http://127.0.0.1:8010'']"
    by (simp add: API_FALLBACK_CANDIDATES_def PRIMARY_API_BASE_URL_def array_from_set_def)
  have h: "\<forall>b \<in> set (''http://localhost:8000'' # API_FALLBACK_CANDIDATES None).
             falls_through ?net ''/monitoring/laptop/mode'' b"
    using f1 f2 f3 by (simp add: cands)
  have dedup: "array_from_set (API_FALLBACK_CANDIDATES None)
                 = [''http://localhost:8000'', ''http://localhost:8010'', ''http://127.0.0.1:8010'']"
    by (simp add: cands) (simp add: array_from_set_def)
  have r: "recorded_error ?net ''/monitoring/laptop/mode'' ''http://127.0.0.1:8010'' = Error ''Failed to fetch''"
    by (simp add: recorded_error_def network_of_def)
  from apiRequest_all_candidates_fail [OF h] f1 f2 f3 show ?thesis
    by (simp add: dedup r)
qed

text \<open>
  The message recorded for a 404 whose body is empty.
\<close>

lemma lastError_404_example:
  "outcome (apiRequest (API_FALLBACK_CANDIDATES (Some ''http://localhost:8010''))
        (network_of [(''http://127.0.0.1:8010/monitoring/laptop/mode'', reply 404 [])])
        ''/monitoring/laptop/mode'' ''http://localhost:8010'')
     = Inl (ErrorValue (Error ''API 404: request failed''))"
  by (simp add: API_FALLBACK_CANDIDATES_def PRIMARY_API_BASE_URL_def array_from_set_def
          apiRequest_def try_block_def attempted_def network_of_def reply_def ok_def show_nat_404 catch_clause_def)

text \<open>
  C1. The source at a response with status 500: \<^verbatim>\<open>throw responseError\<close> is inside the
  try block, so the catch clause of the same iteration takes it and the loop goes on. With
  the default candidates, the first answering 500 and the second 200, the call fetches the
  second candidate and returns its body instead of failing with \<open>API 500: boom\<close>.
\<close>

theorem apiRequest_500_tries_next_candidate:
  "apiRequest (API_FALLBACK_CANDIDATES None)
     (network_of [(''http://localhost:8000/autonomous-ai/status'', reply 500 ''boom''),
                  (''http://localhost:8010/autonomous-ai/status'', reply 200 ''{}'')])
     ''/autonomous-ai/status'' ''http://localhost:8000''
   = \<lparr>outcome = Inr ''{}'',
      activeApiBaseUrl = ''http://localhost:8010'',
      attempts = [''http://localhost:8000'', ''http://localhost:8010'']\<rparr>"
  by (simp add: API_FALLBACK_CANDIDATES_def PRIMARY_API_BASE_URL_def array_from_set_def
          apiRequest_def try_block_def attempted_def network_of_def reply_def ok_def)

text \<open>
  C5, as stated, fails: here the first candidate answers 404 and the second answers 500,
  the first response that is not a 404, and the active base URL afterwards is still the
  first candidate.
\<close>

theorem apiRequest_500_not_promoted:
  "apiRequest (API_FALLBACK_CANDIDATES (Some ''http://localhost:8010''))
     (network_of [(''http://localhost:8010/autonomous-ai/status'', reply 404 ''Not Found''),
                  (''http://127.0.0.1:8010/autonomous-ai/status'', reply 500 ''boom'')])
     ''/autonomous-ai/status'' ''http://localhost:8010''
   = \<lparr>outcome = Inl (ErrorValue (Error ''API 500: boom'')),
      activeApiBaseUrl = ''http://localhost:8010'',
      attempts = [''http://localhost:8010'', ''http://127.0.0.1:8010'']\<rparr>"
  by (simp add: API_FALLBACK_CANDIDATES_def PRIMARY_API_BASE_URL_def array_from_set_def
          apiRequest_def try_block_def attempted_def network_of_def reply_def ok_def show_nat_404 show_nat_500 catch_clause_def)

text \<open>
  C5, amended. Only a successful response promotes: after a call the active base URL is
  the fetched candidate that answered with a successful status, if there is one, and is
  unchanged otherwise; the next call fetches the active base URL first.
\<close>

theorem apiRequest_promotes_on_success:
  "activeApiBaseUrl (apiRequest cands fetch path active)
     = (case List.find (succeeded fetch path) (attempts (apiRequest cands fetch path active)) of
          Some b \<Rightarrow> b | None \<Rightarrow> active)
   \<and> hd (attempts (apiRequest cands fetch' path' (activeApiBaseUrl (apiRequest cands fetch path active))))
       = activeApiBaseUrl (apiRequest cands fetch path active)"
proof -
  have "hd (attempts (apiRequest cands fetch' path' a)) = a" for a
    by (simp add: apiRequest_def attempted_def split: try_exit.splits)
  then show ?thesis
    unfolding apiRequest_def using loop_active by blast
qed

section \<open>Properties of mapDecisionForUi\<close>

lemma toSafeNumber_finite: "\<exists>q. toSafeNumber v (Finite d) = Finite q"
  by (cases v) (auto simp: toSafeNumber_def Number_of_def Number_isFinite_def Let_def split: jsnum.splits)

lemma toSafeNumber_absent: "toSafeNumber None fallback = fallback"
  by (simp add: toSafeNumber_def Number_of_def Number_isFinite_def)

lemma toSafeNumber_present: "toSafeNumber (Some (Finite x)) fallback = Finite x"
  by (simp add: toSafeNumber_def Number_of_def Number_isFinite_def)

lemma max_round_nat: "\<exists>n::nat. Math_max (Finite 0) (Math_round (Finite q)) = Finite (of_nat n)"
proof -
  have "max (0::rat) (of_int \<lfloor>q + 1 / 2\<rfloor>) = of_nat (nat \<lfloor>q + 1 / 2\<rfloor>)"
    by (simp add: max_def)
  then show ?thesis
    by (auto simp: Math_round_def)
qed

lemma max_round_negative: "x < 0 \<Longrightarrow> Math_max (Finite 0) (Math_round (Finite x)) = Finite 0"
proof -
  assume "x < 0"
  then have "x + 1 / 2 < 1" by simp
  then have "\<lfloor>x + 1 / 2\<rfloor> \<le> 0" by (simp only: floor_le_zero)
  then have "(of_int \<lfloor>x + 1 / 2\<rfloor> :: rat) \<le> 0" by (simp only: of_int_le_0_iff)
  then have "max (0::rat) (of_int \<lfloor>x + 1 / 2\<rfloor>) = 0" by (simp only: max_absorb1)
  then show ?thesis by (simp add: Math_round_def)
qed

text \<open>
  C6. The decision payload of the specification is mapped to \<open>reduce_load\<close>, 13, 3.46
  and 0.91, and its time is the host's formatting of the parsed timestamp.
\<close>

theorem mapDecisionForUi_example:
  assumes "Date_parse h ''2024-01-01T10:00:00Z'' = Some d"
  shows "mapDecisionForUi h
           \<lparr>decision = Some
              \<lparr>timestamp = Some ''2024-01-01T10:00:00Z'', rl_action = Some ''reduce_load'',
               optimized_decision = Some
                 \<lparr>recommended_reduction = Some (Finite (127 / 10)),
                  cost_saving_estimate = Some (Finite (3456 / 1000)),
                  stability_score = Some (Finite (914 / 1000))\<rparr>\<rparr>\<rparr>
         = \<lparr>rlAction = ''reduce_load'', reduction = Finite 13, costSaved = Finite (346 / 100),
            stabilityScore = Finite (91 / 100), displayTime = toLocaleTimeString h d\<rparr>"
proof -
  have r: "Math_max (Finite 0) (Math_round (Finite (127 / 10))) = Finite 13"
    by code_simp
  have c: "Number_toFixed2 (Finite (432 / 125)) = Finite (173 / 50)"
    by code_simp
  have s: "Number_toFixed2 (Finite (457 / 500)) = Finite (91 / 100)"
    by code_simp
  show ?thesis
    using assms by (simp add: mapDecisionForUi_def toSafeNumber_present toDisplayTime_def r c s)
qed

theorem mapDecisionForUi_example_witness:
  "Date_parse example_host ''2024-01-01T10:00:00Z'' = Some 55800
   \<and> mapDecisionForUi example_host
           \<lparr>decision = Some
              \<lparr>timestamp = Some ''2024-01-01T10:00:00Z'', rl_action = Some ''reduce_load'',
               optimized_decision = Some
                 \<lparr>recommended_reduction = Some (Finite (127 / 10)),
                  cost_saving_estimate = Some (Finite (3456 / 1000)),
                  stability_score = Some (Finite (914 / 1000))\<rparr>\<rparr>\<rparr>
         = \<lparr>rlAction = ''reduce_load'', reduction = Finite 13, costSaved = Finite (346 / 100),
            stabilityScore = Finite (91 / 100), displayTime = ''15:30:00''\<rparr>"
proof -
  have p: "Date_parse example_host ''2024-01-01T10:00:00Z'' = Some 55800"
    by (simp add: example_host_def)
  have f: "toLocaleTimeString example_host 55800 = ''15:30:00''"
    by (simp add: example_host_def two_digits_def digit_char_def) code_simp
  from mapDecisionForUi_example [OF p] p f show ?thesis
    by simp
qed

text \<open>
  The three numbers do not hinge on the decimals of the payload being exact: every finite
  number this close to them, as the nearest binary fractions are, is rounded alike.
\<close>

lemma rounding_near_example:
  assumes "\<bar>r - 127 / 10\<bar> < 1 / 10" and "\<bar>c - 3456 / 1000\<bar> < 1 / 1000" and "\<bar>s - 914 / 1000\<bar> < 1 / 1000"
  shows "Math_max (Finite 0) (Math_round (Finite r)) = Finite 13
         \<and> Number_toFixed2 (Finite c) = Finite (346 / 100)
         \<and> Number_toFixed2 (Finite s) = Finite (91 / 100)"
proof -
  have rb: "13 \<le> r + 1 / 2" "r + 1 / 2 < 14"
    using assms(1) by linarith+
  have "\<lfloor>r + 1 / 2\<rfloor> = 13"
    by (rule floor_unique) (use rb in simp_all)
  then have r: "Math_max (Finite 0) (Math_round (Finite r)) = Finite 13"
    by (simp add: Math_round_def)
  have cb: "0 \<le> c" "c < 10" "346 \<le> c * 100 + 1 / 2" "c * 100 + 1 / 2 < 347"
    using assms(2) by linarith+
  have "\<lfloor>c * 100 + 1 / 2\<rfloor> = 346"
    by (rule floor_unique) (use cb in simp_all)
  moreover have "\<bar>c\<bar> < 10 ^ 21" using cb(1,2) by simp
  ultimately have c: "Number_toFixed2 (Finite c) = Finite (346 / 100)"
    using cb(1) by (simp add: Number_toFixed2_def)
  have sb: "0 \<le> s" "s < 10" "91 \<le> s * 100 + 1 / 2" "s * 100 + 1 / 2 < 92"
    using assms(3) by linarith+
  have "\<lfloor>s * 100 + 1 / 2\<rfloor> = 91"
    by (rule floor_unique) (use sb in simp_all)
  moreover have "\<bar>s\<bar> < 10 ^ 21" using sb(1,2) by simp
  ultimately have s: "Number_toFixed2 (Finite s) = Finite (91 / 100)"
    using sb(1) by (simp add: Number_toFixed2_def)
  from r c s show ?thesis by simp
qed

text \<open>
  C7. When \<open>optimized_decision\<close> is absent, or \<open>decision\<close> itself is, the reduction, the
  cost saving and the stability score are all 0.
\<close>

theorem mapDecisionForUi_missing_optimized_decision:
  assumes "decision response = None \<or> (\<exists>d. decision response = Some d \<and> optimized_decision d = None)"
  shows "reduction (mapDecisionForUi h response) = Finite 0
         \<and> costSaved (mapDecisionForUi h response) = Finite 0
         \<and> stabilityScore (mapDecisionForUi h response) = Finite 0"
proof -
  have od: "(case optimized_decision (case decision response of Some d \<Rightarrow> d | None \<Rightarrow> empty_decision) of
               Some od \<Rightarrow> od | None \<Rightarrow> empty_optimized) = empty_optimized"
    using assms by (auto simp: empty_decision_def)
  have r: "Math_max (Finite 0) (Math_round (Finite 0)) = Finite 0"
    by code_simp
  have f: "Number_toFixed2 (Finite 0) = Finite 0"
    by code_simp
  show ?thesis
    by (simp add: mapDecisionForUi_def Let_def od empty_optimized_def toSafeNumber_absent r f)
qed

theorem mapDecisionForUi_missing_optimized_decision_witness:
  "reduction (mapDecisionForUi example_host
      \<lparr>decision = Some \<lparr>timestamp = None, rl_action = Some ''hold'', optimized_decision = None\<rparr>\<rparr>) = Finite 0
   \<and> costSaved (mapDecisionForUi example_host
      \<lparr>decision = Some \<lparr>timestamp = None, rl_action = Some ''hold'', optimized_decision = None\<rparr>\<rparr>) = Finite 0
   \<and> stabilityScore (mapDecisionForUi example_host
      \<lparr>decision = Some \<lparr>timestamp = None, rl_action = Some ''hold'', optimized_decision = None\<rparr>\<rparr>) = Finite 0"
  using mapDecisionForUi_missing_optimized_decision
          [of "\<lparr>decision = Some \<lparr>timestamp = None, rl_action = Some ''hold'', optimized_decision = None\<rparr>\<rparr>" example_host]
  by simp

text \<open>
  C10. The reduction is a non-negative integer for every payload, and it is 0 when
  \<open>recommended_reduction\<close> is negative.
\<close>

theorem mapDecisionForUi_reduction_nonnegative:
  "(\<exists>n::nat. reduction (mapDecisionForUi h response) = Finite (of_nat n))
   \<and> (decision response = Some d \<and> optimized_decision d = Some od
        \<and> recommended_reduction od = Some (Finite x) \<and> x < 0
      \<longrightarrow> reduction (mapDecisionForUi h response) = Finite 0)"
proof
  obtain q where "toSafeNumber (recommended_reduction
        (case optimized_decision (case decision response of Some d \<Rightarrow> d | None \<Rightarrow> empty_decision) of
               Some od \<Rightarrow> od | None \<Rightarrow> empty_optimized)) (Finite 0) = Finite q"
    using toSafeNumber_finite by blast
  then show "\<exists>n::nat. reduction (mapDecisionForUi h response) = Finite (of_nat n)"
    using max_round_nat [of q] by (simp add: mapDecisionForUi_def Let_def)
next
  show "decision response = Some d \<and> optimized_decision d = Some od
        \<and> recommended_reduction od = Some (Finite x) \<and> x < 0
      \<longrightarrow> reduction (mapDecisionForUi h response) = Finite 0"
    by (simp add: mapDecisionForUi_def Let_def toSafeNumber_present max_round_negative)
qed

theorem mapDecisionForUi_reduction_nonnegative_witness:
  "reduction (mapDecisionForUi example_host
      \<lparr>decision = Some \<lparr>timestamp = None, rl_action = None,
          optimized_decision = Some \<lparr>recommended_reduction = Some (Finite (- 26 / 5)),
             cost_saving_estimate = None, stability_score = None\<rparr>\<rparr>\<rparr>) = Finite 0"
  using mapDecisionForUi_reduction_nonnegative
     [of example_host "\<lparr>decision = Some \<lparr>timestamp = None, rl_action = None,
          optimized_decision = Some \<lparr>recommended_reduction = Some (Finite (- 26 / 5)),
             cost_saving_estimate = None, stability_score = None\<rparr>\<rparr>\<rparr>"
         "\<lparr>timestamp = None, rl_action = None,
          optimized_decision = Some \<lparr>recommended_reduction = Some (Finite (- 26 / 5)),
             cost_saving_estimate = None, stability_score = None\<rparr>\<rparr>"
         "\<lparr>recommended_reduction = Some (Finite (- 26 / 5)),
             cost_saving_estimate = None, stability_score = None\<rparr>" "- 26 / 5"]
  by simp

section \<open>Properties of fetchLiveData\<close>

lemma finally_clause_releases: "\<not> requestLock (finally_clause s) \<and> \<not> isScanning (finally_clause s)"
  by (simp add: finally_clause_def)

lemma fetchLiveData_unforced_skipped:
  "requestLock s \<Longrightarrow> fetchLiveData_begin False s = (False, s)"
  by (simp add: fetchLiveData_begin_def)

lemma fetchLiveData_forced_proceeds:
  "fetchLiveData_begin True s = (True, s\<lparr>requestLock := True, isScanning := True\<rparr>)"
  by (simp add: fetchLiveData_begin_def)

text \<open>
  C9. An invocation that passes the guard holds the lock and shows the scanning
  indicator; when its continuation has run, whatever the request settled with and whatever
  the state was at that moment, the lock is released and the indicator is off.
\<close>

theorem fetchLiveData_releases_lock:
  assumes "fetchLiveData_begin force s = (True, s1)"
  shows "requestLock s1 \<and> isScanning s1
         \<and> \<not> requestLock (fetchLiveData_resume h settled s2)
         \<and> \<not> isScanning (fetchLiveData_resume h settled s2)"
proof -
  have "s1 = s\<lparr>requestLock := True, isScanning := True\<rparr>"
    using assms by (auto simp: fetchLiveData_begin_def split: if_splits)
  then show ?thesis
    by (simp add: fetchLiveData_resume_def finally_clause_releases)
qed

theorem fetchLiveData_releases_lock_witness:
  "fetchLiveData_begin False (fst mounted) = (True, (fst mounted)\<lparr>requestLock := True, isScanning := True\<rparr>)
   \<and> \<not> requestLock (fetchLiveData_resume example_host (Inl (ErrorValue (Error ''Failed to fetch'')))
                        ((fst mounted)\<lparr>requestLock := True, isScanning := True\<rparr>))
   \<and> \<not> isScanning (fetchLiveData_resume example_host (Inl (ErrorValue (Error ''Failed to fetch'')))
                        ((fst mounted)\<lparr>requestLock := True, isScanning := True\<rparr>))"
proof -
  have b: "fetchLiveData_begin False (fst mounted) = (True, (fst mounted)\<lparr>requestLock := True, isScanning := True\<rparr>)"
    by (simp add: fetchLiveData_begin_def mounted_def)
  from fetchLiveData_releases_lock [OF b] b show ?thesis
    by blast
qed

text \<open>
  Without forced invocations the guard holds: at most one fetch is in flight.
\<close>

lemma step_guarded:
  assumes "guarded sys" and "e \<noteq> Invoke True"
  shows "guarded (step h sys e)"
proof (cases e)
  case (Invoke force)
  then have "\<not> force" using assms(2) by auto
  then show ?thesis using assms(1) Invoke
    by (cases sys) (auto simp: guarded_def fetchLiveData_begin_def)
next
  case (Settle i settled)
  then show ?thesis using assms(1)
    by (cases sys) (auto simp: guarded_def fetchLiveData_resume_def finally_clause_releases)
qed

lemma run_guarded:
  "guarded sys \<Longrightarrow> Invoke True \<notin> set evs \<Longrightarrow> guarded (run h sys evs)"
proof (induction evs arbitrary: sys)
  case Nil
  then show ?case by (simp add: run_def)
next
  case (Cons e evs)
  from Cons.prems have "e \<noteq> Invoke True" by auto
  with Cons.prems(1) have "guarded (step h sys e)" by (rule step_guarded)
  moreover have "Invoke True \<notin> set evs" using Cons.prems(2) by simp
  ultimately have "guarded (run h (step h sys e) evs)" by (rule Cons.IH)
  then show ?case by (simp add: run_def)
qed

lemma unforced_polls_never_overlap:
  "Invoke True \<notin> set evs \<Longrightarrow> length (snd (run h mounted evs)) \<le> 1"
proof -
  assume "Invoke True \<notin> set evs"
  moreover have "guarded mounted" by (simp add: guarded_def mounted_def)
  ultimately have "guarded (run h mounted evs)" by (rule run_guarded [rotated])
  then show ?thesis by (simp add: guarded_def)
qed

text \<open>
  C8. A poll is in flight; a forced invocation starts and settles first, and its finally
  clause clears the lock that the poll still relies on; the next unforced poll passes the
  guard. Two unforced fetches are then in flight together.
\<close>

theorem unforced_polls_overlap_after_forced_fetch:
  "snd (run h mounted [Invoke False, Invoke True]) = [False, True]
   \<and> snd (run h mounted [Invoke False, Invoke True, Settle 1 settled]) = [False]
   \<and> \<not> requestLock (fst (run h mounted [Invoke False, Invoke True, Settle 1 settled]))
   \<and> snd (run h mounted [Invoke False, Invoke True, Settle 1 settled, Invoke False]) = [False, False]"
  by (simp add: run_def mounted_def fetchLiveData_begin_def fetchLiveData_resume_def finally_clause_def)

end
